theory Spec2Isabelle
  imports Complex_Main
begin

section \<open>The books scraper (flipkart\_scraper.py)\<close>

text \<open>
  The scraper downloads \<open>num_pages\<close> listing pages, extracts one record per product
  node of each page, puts all records into a table and adds a numeric price column.

  The libraries the module calls are modelled by what the module uses of them:
  \<^item> Python strings are \<^typ>\<open>string\<close>; a character is a code point below 256, which
    covers the pound sign (\<open>0xA3\<close>) and the mis-decoded \<open>0xC2\<close> named in the source;
  \<^item> the document tree that \<open>BeautifulSoup(html, "lxml")\<close> builds is a \<open>node\<close>; the
    HTML parser itself is a parameter \<open>BeautifulSoup :: string \<Rightarrow> node\<close>;
  \<^item> the network is a parameter \<open>net\<close> giving, for a URL, the response of
    \<open>requests.get\<close> or the exception it raises; the URLs requested are recorded, in
    order, in a trace;
  \<^item> an exception is a value \<open>Inl e\<close> of the type \<open>error\<close>, named as Python names it;
  \<^item> a float is the decimal number that the literal denotes, a \<^typ>\<open>rat\<close>; Python
    rounds it to the nearest double, which keeps the sign and maps equal literals to
    equal doubles.
  The progress lines printed by the module are not part of the model.
\<close>

subsection \<open>Errors\<close>

datatype error =
    AttributeError
  | TypeError
  | KeyError string
  | ValueError string
  | ConnectionError
  | Timeout
  | HTTPError int

subsection \<open>Strings\<close>

definition ascii_digit :: "char \<Rightarrow> bool" where
  "ascii_digit c = (c \<in> set ''0123456789'')"

text \<open>\<open>str.strip()\<close>: removes leading and trailing whitespace (\<open>str.isspace\<close>).\<close>

definition isspace :: "char \<Rightarrow> bool" where
  "isspace c = ((of_char c :: nat) \<in> {9, 10, 11, 12, 13, 28, 29, 30, 31, 32, 133, 160})"

definition strip :: "string \<Rightarrow> string" where
  "strip s = rev (dropWhile isspace (rev (dropWhile isspace s)))"

text \<open>\<open>str(page)\<close> inside the f-string: the decimal numeral of an integer.\<close>

definition digit_char :: "nat \<Rightarrow> char" where
  "digit_char d = char_of (48 + d)"

fun str_nat :: "nat \<Rightarrow> string" where
  "str_nat n = (if n < 10 then [digit_char n] else str_nat (n div 10) @ [digit_char (n mod 10)])"

declare str_nat.simps [simp del]

definition str_int :: "int \<Rightarrow> string" where
  "str_int i = (if i < 0 then CHR ''-'' # str_nat (nat (- i)) else str_nat (nat i))"

subsection \<open>The document tree\<close>

text \<open>
  A node is a text string or a tag with its name, the tokens of its \<open>class\<close> attribute
  (Beautiful Soup keeps \<open>class\<close> as a list of tokens), its other attributes and its
  children.
\<close>

datatype node =
    NavigableString string
  | Tag string "string list" "(string \<times> string) list" "node list"

text \<open>All nodes below a node, in document order.\<close>

fun descendants :: "node \<Rightarrow> node list" where
  "descendants (NavigableString s) = []"
| "descendants (Tag n cs as ks) = concat (map (\<lambda>k. k # descendants k) ks)"

text \<open>The selector \<open>n.c1.c2...\<close>: a tag named \<open>n\<close> that has every class \<open>ci\<close>.\<close>

fun matches :: "string \<Rightarrow> string list \<Rightarrow> node \<Rightarrow> bool" where
  "matches n cs (NavigableString s) = False"
| "matches n cs (Tag m ds as ks) = (m = n \<and> set cs \<subseteq> set ds)"

definition select :: "string \<Rightarrow> string list \<Rightarrow> node \<Rightarrow> node list" where
  "select n cs tree = filter (matches n cs) (descendants tree)"

definition select_one :: "string \<Rightarrow> string list \<Rightarrow> node \<Rightarrow> node option" where
  "select_one n cs tree = (case select n cs tree of [] \<Rightarrow> None | t # ts \<Rightarrow> Some t)"

text \<open>\<open>tag.h3\<close>, \<open>tag.a\<close>: the first tag of that name below \<open>tag\<close>, or \<open>None\<close>.\<close>

definition find_tag :: "string \<Rightarrow> node \<Rightarrow> node option" where
  "find_tag n tree = select_one n [] tree"

text \<open>\<open>tag[key]\<close> for an attribute other than \<open>class\<close>.\<close>

fun getitem :: "node \<Rightarrow> string \<Rightarrow> error + string" where
  "getitem (NavigableString s) key = Inl TypeError"
| "getitem (Tag n cs as ks) key =
     (case map_of as key of None \<Rightarrow> Inl (KeyError key) | Some v \<Rightarrow> Inr v)"

text \<open>\<open>tag["class"]\<close>.\<close>

fun getitem_class :: "node \<Rightarrow> string list" where
  "getitem_class (NavigableString s) = []"
| "getitem_class (Tag n cs as ks) = cs"

text \<open>
  \<open>tag.get_text(strip=True)\<close>: every text string below the tag is stripped, the empty
  ones are skipped, the rest are joined with the empty separator.
\<close>

fun all_strings :: "node \<Rightarrow> string list" where
  "all_strings (NavigableString s) = [s]"
| "all_strings (Tag n cs as ks) = concat (map all_strings ks)"

definition get_text :: "node \<Rightarrow> string" where
  "get_text t = concat (filter (\<lambda>s. s \<noteq> []) (map strip (all_strings t)))"

subsection \<open>Configuration and the page fetcher\<close>

definition BASE_URL :: string where
  "BASE_URL = ''https://books.toscrape.com/''"

record response =
  status_code :: int
  resp_text :: string

type_synonym network = "string \<Rightarrow> error + response"

text \<open>
  \<open>get_page\<close>: \<open>requests.get\<close>, then \<open>raise_for_status\<close>, which raises for a status
  from 400 to 599, then the body. The URL goes to the trace before the outcome is known.
\<close>

definition get_page :: "network \<Rightarrow> string \<Rightarrow> string list \<Rightarrow> (error + string) \<times> string list" where
  "get_page net url trace =
     (case net url of
        Inl e \<Rightarrow> (Inl e, trace @ [url])
      | Inr resp \<Rightarrow>
          if 400 \<le> status_code resp \<and> status_code resp < 600
          then (Inl (HTTPError (status_code resp)), trace @ [url])
          else (Inr (resp_text resp), trace @ [url]))"

subsection \<open>The record extractor\<close>

record book =
  title :: string
  price_raw :: string
  availability :: string
  rating :: "string option"

text \<open>\<open>art.h3.a["title"]\<close>\<close>

definition title_of :: "node \<Rightarrow> error + string" where
  "title_of art =
     (case find_tag ''h3'' art of
        None \<Rightarrow> Inl AttributeError
      | Some h3 \<Rightarrow>
          (case find_tag ''a'' h3 of
             None \<Rightarrow> Inl TypeError
           | Some a \<Rightarrow> getitem a ''title''))"

text \<open>\<open>art.select_one("p.price_color").get_text(strip=True)\<close>\<close>

definition price_text_of :: "node \<Rightarrow> error + string" where
  "price_text_of art =
     (case select_one ''p'' [''price_color''] art of
        None \<Rightarrow> Inl AttributeError
      | Some p \<Rightarrow> Inr (get_text p))"

text \<open>\<open>art.select_one("p.instock.availability").get_text(strip=True)\<close>\<close>

definition availability_of :: "node \<Rightarrow> error + string" where
  "availability_of art =
     (case select_one ''p'' [''instock'', ''availability''] art of
        None \<Rightarrow> Inl AttributeError
      | Some p \<Rightarrow> Inr (get_text p))"

text \<open>
  \<open>rating_tag["class"][1] if rating_tag and len(rating_tag["class"]) > 1 else None\<close>;
  a tag is always true.
\<close>

definition rating_of :: "node \<Rightarrow> string option" where
  "rating_of art =
     (case select_one ''p'' [''star-rating''] art of
        None \<Rightarrow> None
      | Some rating_tag \<Rightarrow>
          if length (getitem_class rating_tag) > 1
          then Some (getitem_class rating_tag ! 1)
          else None)"

text \<open>The body of the loop over the product nodes: the four fields, in this order.\<close>

definition extract_book :: "node \<Rightarrow> error + book" where
  "extract_book art =
     (case title_of art of
        Inl e \<Rightarrow> Inl e
      | Inr t \<Rightarrow>
          (case price_text_of art of
             Inl e \<Rightarrow> Inl e
           | Inr price_text \<Rightarrow>
               (case availability_of art of
                  Inl e \<Rightarrow> Inl e
                | Inr a \<Rightarrow>
                    Inr \<lparr>title = t, price_raw = price_text, availability = a,
                         rating = rating_of art\<rparr>)))"

fun parse_loop :: "node list \<Rightarrow> book list \<Rightarrow> error + book list" where
  "parse_loop [] books = Inr books"
| "parse_loop (art # articles) books =
     (case extract_book art of
        Inl e \<Rightarrow> Inl e
      | Inr b \<Rightarrow> parse_loop articles (books @ [b]))"

definition parse_books :: "(string \<Rightarrow> node) \<Rightarrow> string \<Rightarrow> error + book list" where
  "parse_books BeautifulSoup html =
     parse_loop (select ''article'' [''product_pod''] (BeautifulSoup html)) []"

subsection \<open>The table and the price column\<close>

record clean_book = book +
  price_clean :: rat

record 'r dataframe =
  columns :: "string list"
  rows :: "'r list"

text \<open>
  \<open>pd.DataFrame(all_books)\<close>: one row per dictionary, the columns are the keys of the
  dictionaries; an empty list gives a table with no column.
\<close>

definition DataFrame :: "book list \<Rightarrow> book dataframe" where
  "DataFrame all_books =
     \<lparr>columns = (if all_books = [] then []
                 else [''title'', ''price_raw'', ''availability'', ''rating'']),
      rows = all_books\<rparr>"

text \<open>\<open>df["price_raw"]\<close>\<close>

definition getitem_price_raw :: "book dataframe \<Rightarrow> error + string list" where
  "getitem_price_raw df =
     (if ''price_raw'' \<in> set (columns df) then Inr (map price_raw (rows df))
      else Inl (KeyError ''price_raw''))"

text \<open>\<open>re.sub(r"[^0-9.]", "", s)\<close>: a scan that drops each character the class matches.\<close>

fun re_sub :: "string \<Rightarrow> string" where
  "re_sub [] = []"
| "re_sub (c # cs) = (if ascii_digit c \<or> c = CHR ''.'' then c # re_sub cs else re_sub cs)"

definition str_replace :: "string list \<Rightarrow> string list" where
  "str_replace col = map re_sub col"

text \<open>
  \<open>float(s)\<close> for a string of digits and dots, which is all that \<open>re_sub\<close> leaves
  (signs, exponents, blanks and the other forms \<open>float\<close> accepts never reach it):
  digits, optionally a dot and digits, with a digit somewhere. The digits are
  accumulated from the left. A string that is not a number raises \<open>ValueError\<close>, which
  names the string it was given. The result is the exact decimal value; Python rounds
  it to the nearest double, and to \<open>inf\<close> when the digits exceed the range of a double,
  so the result of Python is not negative either.
\<close>

fun digits_value :: "nat \<Rightarrow> string \<Rightarrow> nat" where
  "digits_value acc [] = acc"
| "digits_value acc (c # cs) = digits_value (10 * acc + (of_char c - 48)) cs"

definition py_float :: "string \<Rightarrow> error + rat" where
  "py_float s =
     (let ip = takeWhile ascii_digit s; rest = dropWhile ascii_digit s in
      case rest of
        [] \<Rightarrow> if ip = [] then Inl (ValueError s) else Inr (of_nat (digits_value 0 ip))
      | c # fp \<Rightarrow>
          if c = CHR ''.'' \<and> list_all ascii_digit fp \<and> (ip \<noteq> [] \<or> fp \<noteq> [])
          then Inr (of_nat (digits_value 0 ip) + of_nat (digits_value 0 fp) / 10 ^ length fp)
          else Inl (ValueError s))"

text \<open>\<open>.astype(float)\<close>: converts the column from the top, the first failure raises.\<close>

fun astype_float :: "string list \<Rightarrow> error + rat list" where
  "astype_float [] = Inr []"
| "astype_float (s # col) =
     (case py_float s of
        Inl e \<Rightarrow> Inl e
      | Inr v \<Rightarrow> (case astype_float col of Inl e \<Rightarrow> Inl e | Inr vs \<Rightarrow> Inr (v # vs)))"

text \<open>\<open>df["price_clean"] = ...\<close>: the new column is attached row by row.\<close>

definition with_price :: "book \<Rightarrow> rat \<Rightarrow> clean_book" where
  "with_price b p =
     \<lparr>title = title b, price_raw = price_raw b, availability = availability b,
      rating = rating b, price_clean = p\<rparr>"

definition setitem_price_clean :: "book dataframe \<Rightarrow> rat list \<Rightarrow> clean_book dataframe" where
  "setitem_price_clean df col =
     \<lparr>columns = columns df @ [''price_clean''],
      rows = map (\<lambda>(b, p). with_price b p) (zip (rows df) col)\<rparr>"

subsection \<open>The pagination driver\<close>

definition page_url :: "int \<Rightarrow> string" where
  "page_url page =
     (if page = 1 then BASE_URL
      else BASE_URL @ ''catalogue/page-'' @ str_int page @ ''.html'')"

fun scrape_loop ::
  "network \<Rightarrow> (string \<Rightarrow> node) \<Rightarrow> int list \<Rightarrow> book list \<Rightarrow> string list
     \<Rightarrow> (error + book list) \<times> string list" where
  "scrape_loop net BeautifulSoup [] all_books trace = (Inr all_books, trace)"
| "scrape_loop net BeautifulSoup (page # pages) all_books trace =
     (case get_page net (page_url page) trace of
        (Inl e, trace') \<Rightarrow> (Inl e, trace')
      | (Inr html, trace') \<Rightarrow>
          (case parse_books BeautifulSoup html of
             Inl e \<Rightarrow> (Inl e, trace')
           | Inr page_books \<Rightarrow>
               scrape_loop net BeautifulSoup pages (all_books @ page_books) trace'))"

text \<open>The part of \<open>scrape_books\<close> after the loop.\<close>

definition clean_prices :: "book list \<Rightarrow> error + clean_book dataframe" where
  "clean_prices all_books =
     (let df = DataFrame all_books in
      case getitem_price_raw df of
        Inl e \<Rightarrow> Inl e
      | Inr col \<Rightarrow>
          (case astype_float (str_replace col) of
             Inl e \<Rightarrow> Inl e
           | Inr vs \<Rightarrow> Inr (setitem_price_clean df vs)))"

definition scrape_books ::
  "network \<Rightarrow> (string \<Rightarrow> node) \<Rightarrow> int \<Rightarrow> string list
     \<Rightarrow> (error + clean_book dataframe) \<times> string list" where
  "scrape_books net BeautifulSoup num_pages trace =
     (case scrape_loop net BeautifulSoup [1..num_pages] [] trace of
        (Inl e, trace') \<Rightarrow> (Inl e, trace')
      | (Inr all_books, trace') \<Rightarrow> (clean_prices all_books, trace'))"

subsection \<open>Example pages\<close>

text \<open>
  A product node as the site renders it, a listing page around some nodes, a parser
  that knows four pages, and three networks: one that serves two pages, then a 404,
  then no connection; one that serves a page without products for every URL; one
  that serves a page whose only product has an empty title and the rating token
  \<open>Ten\<close>.
\<close>

definition product_pod :: "string \<Rightarrow> string \<Rightarrow> string list \<Rightarrow> node" where
  "product_pod t price rating_classes =
     Tag ''article'' [''product_pod''] []
       [Tag ''p'' rating_classes [] [Tag ''i'' [''icon-star''] [] []],
        Tag ''h3'' [] []
          [Tag ''a'' [] [(''href'', ''index.html''), (''title'', t)] [NavigableString t]],
        Tag ''div'' [''product_price''] []
          [Tag ''p'' [''price_color''] [] [NavigableString price],
           Tag ''p'' [''instock'', ''availability''] []
             [Tag ''i'' [''icon-ok''] [] [], NavigableString ''  In stock  '']]]"

definition no_price_pod :: node where
  "no_price_pod =
     Tag ''article'' [''product_pod''] []
       [Tag ''h3'' [] [] [Tag ''a'' [] [(''title'', ''Untitled'')] []],
        Tag ''p'' [''instock'', ''availability''] [] [NavigableString ''In stock'']]"

definition listing :: "node list \<Rightarrow> node" where
  "listing nodes = Tag ''[document]'' [] [] [Tag ''html'' [] [] [Tag ''body'' [] [] nodes]]"

definition example_soup :: "string \<Rightarrow> node" where
  "example_soup html =
     (if html = ''one'' then
        listing [product_pod ''A Light'' (CHR 0xA3 # ''51.77'') [''star-rating'', ''Three''],
                 product_pod ''Tipping'' (CHR 0xC2 # ''53.74'') [''star-rating'']]
      else if html = ''two'' then
        listing [product_pod ''A Light'' (CHR 0xA3 # ''51.77'') [''star-rating'', ''Three'']]
      else if html = ''broken'' then
        listing [product_pod ''Soumission'' (CHR 0xA3 # ''50.10'') [''star-rating'', ''One''],
                 no_price_pod]
      else if html = ''odd'' then
        listing [product_pod [] ''1'' [''star-rating'', ''Ten'']]
      else listing [])"

definition example_net :: network where
  "example_net url =
     (if url = ''https://books.toscrape.com/''
      then Inr \<lparr>status_code = 200, resp_text = ''one''\<rparr>
      else if url = ''https://books.toscrape.com/catalogue/page-2.html''
      then Inr \<lparr>status_code = 200, resp_text = ''two''\<rparr>
      else if url = ''https://books.toscrape.com/catalogue/page-3.html''
      then Inr \<lparr>status_code = 404, resp_text = ''Not Found''\<rparr>
      else Inl ConnectionError)"

definition blank_net :: network where
  "blank_net url = Inr \<lparr>status_code = 200, resp_text = ''blank''\<rparr>"

definition odd_net :: network where
  "odd_net url = Inr \<lparr>status_code = 200, resp_text = ''odd''\<rparr>"

section \<open>Properties\<close>

subsection \<open>The price conversion\<close>

lemma alphabet_iff: "c \<in> set ''0123456789.'' \<longleftrightarrow> ascii_digit c \<or> c = CHR ''.''"
  by (simp add: ascii_digit_def)

lemma re_sub_filter: "re_sub s = filter (\<lambda>c. c \<in> set ''0123456789.'') s"
  by (induction s) (auto simp: ascii_digit_def)

lemma set_re_sub: "set (re_sub s) = {c \<in> set s. ascii_digit c \<or> c = CHR ''.''}"
  by (induction s) auto

lemma py_float_nonneg: "py_float s = Inr v \<Longrightarrow> 0 \<le> v"
  by (auto simp: py_float_def Let_def split: list.splits if_splits)

lemma py_float_error: "py_float s = Inl e \<Longrightarrow> e = ValueError s"
  by (auto simp: py_float_def Let_def split: list.splits if_splits)

lemma py_float_no_digit:
  assumes "\<not> (\<exists>c \<in> set s. ascii_digit c)"
  shows "py_float s = Inl (ValueError s)"
proof -
  from assms have tw: "takeWhile ascii_digit s = []" and dw: "dropWhile ascii_digit s = s"
    by (cases s; simp)+
  show ?thesis
  proof (cases s)
    case Nil
    then show ?thesis by (simp add: py_float_def)
  next
    case (Cons c fp)
    with assms have "fp \<noteq> [] \<longrightarrow> \<not> list_all ascii_digit fp"
      by (cases fp) auto
    with Cons tw dw show ?thesis
      by (auto simp: py_float_def Let_def)
  qed
qed

lemma count_dots_digits: "list_all ascii_digit fp \<Longrightarrow> count_list fp (CHR ''.'') = 0"
  by (induction fp) (auto simp: ascii_digit_def)

lemma py_float_two_dots:
  assumes "2 \<le> count_list s (CHR ''.'')"
  shows "py_float s = Inl (ValueError s)"
proof (rule ccontr)
  assume "py_float s \<noteq> Inl (ValueError s)"
  then obtain v where v: "py_float s = Inr v"
    using py_float_error by (cases "py_float s") auto
  have ip: "count_list (takeWhile ascii_digit s) (CHR ''.'') = 0"
    by (rule count_dots_digits) (simp add: list_all_iff, meson set_takeWhileD)
  have "count_list (dropWhile ascii_digit s) (CHR ''.'') \<le> 1"
  proof (cases "dropWhile ascii_digit s")
    case Nil
    then show ?thesis by (simp del: dropWhile_eq_Nil_conv)
  next
    case (Cons c fp)
    with v have "list_all ascii_digit fp"
      by (auto simp: py_float_def Let_def split: if_splits)
    with Cons show ?thesis by (simp add: count_dots_digits)
  qed
  moreover have "count_list s (CHR ''.'') =
      count_list (takeWhile ascii_digit s) (CHR ''.'') + count_list (dropWhile ascii_digit s) (CHR ''.'')"
    by (metis takeWhile_dropWhile_id count_list_append)
  ultimately show False using assms ip by simp
qed

lemma py_float_ok:
  assumes alpha: "set s \<subseteq> set ''0123456789.''"
    and dots: "count_list s (CHR ''.'') \<le> 1"
    and dig: "\<exists>c \<in> set s. ascii_digit c"
  shows "\<exists>v. py_float s = Inr v"
proof (cases "dropWhile ascii_digit s")
  case Nil
  then have tw: "takeWhile ascii_digit s = s"
    by (metis append_Nil2 takeWhile_dropWhile_id)
  from dig have "s \<noteq> []" by auto
  then show ?thesis unfolding py_float_def Let_def Nil tw by simp
next
  case (Cons c fp)
  have s: "s = takeWhile ascii_digit s @ c # fp"
    by (metis Cons takeWhile_dropWhile_id)
  have "\<not> ascii_digit c"
    by (metis Cons hd_dropWhile list.sel(1) list.distinct(1))
  moreover have "c \<in> set s" by (subst s) simp
  ultimately have c: "c = CHR ''.''"
    using alpha alphabet_iff by blast
  have "count_list s (CHR ''.'') = count_list (takeWhile ascii_digit s) (CHR ''.'') + 1 + count_list fp (CHR ''.'')"
    by (subst s) (simp add: c)
  with dots have "count_list fp (CHR ''.'') = 0" by simp
  then have "CHR ''.'' \<notin> set fp"
    by (simp add: count_list_0_iff)
  moreover have "set fp \<subseteq> set s" by (subst s) auto
  ultimately have fp: "list_all ascii_digit fp"
    unfolding list_all_iff using alpha alphabet_iff by blast
  have "takeWhile ascii_digit s \<noteq> [] \<or> fp \<noteq> []"
  proof (rule ccontr)
    assume "\<not> ?thesis"
    with s have "s = [c]" by simp
    with dig c show False by (simp add: ascii_digit_def)
  qed
  with Cons c fp show ?thesis by (auto simp: py_float_def Let_def)
qed

lemma py_float_iff:
  "(\<exists>v. py_float (re_sub s) = Inr v) \<longleftrightarrow>
     count_list (re_sub s) (CHR ''.'') \<le> 1 \<and> (\<exists>c \<in> set s. ascii_digit c)"
proof
  assume "\<exists>v. py_float (re_sub s) = Inr v"
  then obtain v where v: "py_float (re_sub s) = Inr v" ..
  have "\<not> 2 \<le> count_list (re_sub s) (CHR ''.'')"
    using v py_float_two_dots [of "re_sub s"] by auto
  moreover have "\<exists>c \<in> set (re_sub s). ascii_digit c"
    using v py_float_no_digit [of "re_sub s"] by auto
  ultimately show "count_list (re_sub s) (CHR ''.'') \<le> 1 \<and> (\<exists>c \<in> set s. ascii_digit c)"
    by (auto simp: set_re_sub)
next
  assume a: "count_list (re_sub s) (CHR ''.'') \<le> 1 \<and> (\<exists>c \<in> set s. ascii_digit c)"
  have "set (re_sub s) \<subseteq> set ''0123456789.''"
    using alphabet_iff by (auto simp: set_re_sub simp del: set_simps)
  moreover from a have "\<exists>c \<in> set (re_sub s). ascii_digit c"
    by (auto simp: set_re_sub)
  ultimately show "\<exists>v. py_float (re_sub s) = Inr v"
    using a by (intro py_float_ok) auto
qed

lemma digits_value_acc: "digits_value acc cs = acc * 10 ^ length cs + digits_value 0 cs"
proof (induction cs arbitrary: acc)
  case Nil
  then show ?case by simp
next
  case (Cons c cs)
  have "digits_value acc (c # cs) = digits_value (10 * acc + (of_char c - 48)) cs" by simp
  also have "\<dots> = (10 * acc + (of_char c - 48)) * 10 ^ length cs + digits_value 0 cs"
    by (rule Cons.IH)
  also have "digits_value 0 (c # cs) = (of_char c - 48) * 10 ^ length cs + digits_value 0 cs"
    using Cons.IH [of "of_char c - 48"] by simp
  ultimately show ?case by (simp add: algebra_simps)
qed

lemma digits_value_append:
  "digits_value 0 (xs @ ys) = digits_value 0 xs * 10 ^ length ys + digits_value 0 ys"
proof -
  have "digits_value acc (xs @ ys) = digits_value (digits_value acc xs) ys" for acc
    by (induction xs arbitrary: acc) simp_all
  then show ?thesis using digits_value_acc [of "digits_value 0 xs" ys] by simp
qed

lemma py_float_decimal:
  assumes "py_float s = Inr v"
  shows "v = of_nat (digits_value 0 (filter ascii_digit s))
             / 10 ^ (length (dropWhile ascii_digit s) - 1)"
proof (cases "dropWhile ascii_digit s")
  case Nil
  then have tw: "takeWhile ascii_digit s = s"
    by (metis append_Nil2 takeWhile_dropWhile_id)
  then have "filter ascii_digit s = s"
    by (metis filter_id_conv set_takeWhileD)
  moreover from assms have "v = of_nat (digits_value 0 s)"
    unfolding py_float_def Let_def Nil tw by (simp split: if_splits)
  ultimately show ?thesis unfolding Nil by simp
next
  case (Cons c fp)
  let ?ip = "takeWhile ascii_digit s"
  from assms Cons have c: "c = CHR ''.''" and fp: "list_all ascii_digit fp"
    and v: "v = of_nat (digits_value 0 ?ip) + of_nat (digits_value 0 fp) / 10 ^ length fp"
    by (auto simp: py_float_def Let_def split: if_splits)
  have s: "s = ?ip @ c # fp" by (metis Cons takeWhile_dropWhile_id)
  have "filter ascii_digit ?ip = ?ip" by (metis filter_id_conv set_takeWhileD)
  moreover from fp have "filter ascii_digit fp = fp" by (simp add: list_all_iff)
  moreover have "\<not> ascii_digit c" by (simp add: c ascii_digit_def)
  ultimately have "filter ascii_digit s = ?ip @ fp"
    by (subst s) simp
  then have "rat_of_nat (digits_value 0 (filter ascii_digit s))
      = of_nat (digits_value 0 ?ip) * 10 ^ length fp + of_nat (digits_value 0 fp)"
    by (simp add: digits_value_append)
  then show ?thesis unfolding Cons v by (simp add: field_simps)
qed

lemma astype_float_Inr: "astype_float col = Inr vs \<longleftrightarrow> map py_float col = map Inr vs"
proof (induction col arbitrary: vs)
  case Nil
  then show ?case by auto
next
  case (Cons s col)
  show ?case
  proof (cases "py_float s")
    case (Inl e)
    then show ?thesis by (cases vs) auto
  next
    case v: (Inr v)
    show ?thesis
    proof (cases "astype_float col")
      case (Inl e)
      with Cons.IH have "\<And>ws. map py_float col \<noteq> map Inr ws" by simp
      with v Inl show ?thesis by (cases vs) auto
    next
      case (Inr ws)
      with Cons.IH [of ws] have "map py_float col = map Inr ws" by simp
      with v Inr show ?thesis by (cases vs) (auto simp: inj_map_eq_map)
    qed
  qed
qed

lemma astype_float_Inl:
  "astype_float col = Inl e \<Longrightarrow> \<exists>s \<in> set col. py_float s = Inl e"
  by (induction col) (auto split: sum.splits)

lemma astype_float_fails:
  "s \<in> set col \<Longrightarrow> py_float s = Inl e \<Longrightarrow> \<exists>t \<in> set col. astype_float col = Inl (ValueError t)"
proof -
  assume a: "s \<in> set col" "py_float s = Inl e"
  have "\<not> (\<exists>vs. astype_float col = Inr vs)"
  proof
    assume "\<exists>vs. astype_float col = Inr vs"
    then obtain vs where "map py_float col = map Inr vs" by (auto simp: astype_float_Inr)
    then have "py_float s \<in> set (map Inr vs)" using a(1) by (metis image_eqI set_map)
    with a(2) show False by auto
  qed
  then obtain e' where e': "astype_float col = Inl e'" by (cases "astype_float col") auto
  then obtain t where "t \<in> set col" "py_float t = Inl e'" using astype_float_Inl by blast
  with e' show ?thesis using py_float_error by blast
qed

lemma clean_prices_Inr:
  assumes "clean_prices books = Inr df"
  shows "books \<noteq> []"
    and "\<exists>vs. map (\<lambda>b. py_float (re_sub (price_raw b))) books = map Inr vs
          \<and> df = \<lparr>columns = [''title'', ''price_raw'', ''availability'', ''rating'', ''price_clean''],
                   rows = map (\<lambda>(b, p). with_price b p) (zip books vs)\<rparr>"
proof -
  show ne: "books \<noteq> []"
    using assms by (auto simp: clean_prices_def DataFrame_def getitem_price_raw_def)
  from assms ne obtain vs where vs: "astype_float (str_replace (map price_raw books)) = Inr vs"
    and df: "df = setitem_price_clean (DataFrame books) vs"
    by (auto simp: clean_prices_def DataFrame_def getitem_price_raw_def split: sum.splits)
  from vs have "map (\<lambda>b. py_float (re_sub (price_raw b))) books = map Inr vs"
    by (simp add: astype_float_Inr str_replace_def comp_def)
  with df ne show "\<exists>vs. map (\<lambda>b. py_float (re_sub (price_raw b))) books = map Inr vs
          \<and> df = \<lparr>columns = [''title'', ''price_raw'', ''availability'', ''rating'', ''price_clean''],
                   rows = map (\<lambda>(b, p). with_price b p) (zip books vs)\<rparr>"
    by (auto simp: setitem_price_clean_def DataFrame_def)
qed

lemma clean_prices_row:
  assumes "clean_prices books = Inr df" "r \<in> set (rows df)"
  shows "py_float (re_sub (price_raw r)) = Inr (price_clean r)"
proof -
  from clean_prices_Inr(2)[OF assms(1)] obtain vs where
    m: "map (\<lambda>b. py_float (re_sub (price_raw b))) books = map Inr vs"
    and rows: "rows df = map (\<lambda>(b, p). with_price b p) (zip books vs)" by auto
  from m have len: "length books = length vs" by (metis length_map)
  from assms(2) rows obtain b v where bv: "(b, v) \<in> set (zip books vs)" and r: "r = with_price b v"
    by auto
  from bv obtain i where i: "i < length books" "books ! i = b" "vs ! i = v"
    using len by (auto simp: in_set_zip)
  from m i len have "py_float (re_sub (price_raw b)) = Inr v"
    by (metis nth_map)
  with r show ?thesis by (simp add: with_price_def)
qed

lemma clean_prices_fails:
  assumes "b \<in> set books" "py_float (re_sub (price_raw b)) = Inl e"
  shows "\<exists>b' \<in> set books. clean_prices books = Inl (ValueError (re_sub (price_raw b')))"
proof -
  from assms(1) have ne: "books \<noteq> []" by auto
  from assms(1) have "re_sub (price_raw b) \<in> set (str_replace (map price_raw books))"
    by (simp add: str_replace_def)
  from astype_float_fails [OF this assms(2)]
  obtain t where t: "t \<in> set (str_replace (map price_raw books))"
    and f: "astype_float (str_replace (map price_raw books)) = Inl (ValueError t)" by blast
  from t obtain b' where "b' \<in> set books" "t = re_sub (price_raw b')"
    by (auto simp: str_replace_def)
  moreover from f ne have "clean_prices books = Inl (ValueError t)"
    by (simp add: clean_prices_def DataFrame_def getitem_price_raw_def)
  ultimately show ?thesis by blast
qed

subsection \<open>The extraction loop\<close>

lemma getitem_error: "getitem a key = Inl e \<Longrightarrow> e = TypeError \<or> e = KeyError key"
  by (cases a) (auto split: option.splits)

lemma title_of_error:
  "title_of art = Inl e \<Longrightarrow> e = AttributeError \<or> e = TypeError \<or> e = KeyError ''title''"
  by (auto simp: title_of_def split: option.splits dest: getitem_error)

lemma extract_book_error:
  "extract_book art = Inl e \<Longrightarrow> e = AttributeError \<or> e = TypeError \<or> e = KeyError ''title''"
  by (auto simp: extract_book_def price_text_of_def availability_of_def
      split: sum.splits option.splits dest: title_of_error)

lemma extract_book_Inr:
  "extract_book art = Inr b \<longleftrightarrow>
     title_of art = Inr (title b) \<and> price_text_of art = Inr (price_raw b)
     \<and> availability_of art = Inr (availability b) \<and> rating b = rating_of art"
  by (cases b) (auto simp: extract_book_def split: sum.splits)

lemma parse_loop_Inr:
  "parse_loop arts acc = Inr r \<longleftrightarrow> (\<exists>bs. map extract_book arts = map Inr bs \<and> r = acc @ bs)"
proof (induction arts arbitrary: acc)
  case Nil
  then show ?case by auto
next
  case (Cons art arts)
  show ?case
  proof (cases "extract_book art")
    case (Inl e)
    then show ?thesis by (auto simp: Cons_eq_map_conv)
  next
    case (Inr b)
    then show ?thesis
      by (auto simp: Cons.IH Cons_eq_map_conv)
  qed
qed

lemma parse_loop_Inl:
  "parse_loop arts acc = Inl e \<Longrightarrow> \<exists>art \<in> set arts. extract_book art = Inl e"
  by (induction arts arbitrary: acc) (auto split: sum.splits)

lemma parse_loop_fails:
  assumes "art \<in> set arts" "extract_book art = Inl e"
  shows "\<exists>e'. parse_loop arts acc = Inl e'"
proof (cases "parse_loop arts acc")
  case (Inl e')
  then show ?thesis by blast
next
  case (Inr r)
  then obtain bs where "map extract_book arts = map Inr bs" by (auto simp: parse_loop_Inr)
  then have "extract_book art \<in> set (map Inr bs)" using assms(1) by (metis image_eqI set_map)
  with assms(2) show ?thesis by auto
qed

lemma map_Inr_ex:
  "(\<forall>x \<in> set xs. \<exists>y. f x = Inr y) \<Longrightarrow> \<exists>ys. map f xs = map Inr ys"
proof (induction xs)
  case Nil
  then show ?case by simp
next
  case (Cons x xs)
  then obtain y ys where "f x = Inr y" "map f xs = map Inr ys" by auto
  then have "map f (x # xs) = map Inr (y # ys)" by simp
  then show ?case by blast
qed

lemma map_Inr_source:
  "map f xs = map Inr ys \<Longrightarrow> y \<in> set ys \<Longrightarrow> \<exists>x \<in> set xs. f x = Inr y"
proof -
  assume m: "map f xs = map Inr ys" and y: "y \<in> set ys"
  then have "Inr y \<in> set (map f xs)" by simp
  then show ?thesis by auto
qed

lemma parse_books_Inr:
  "parse_books bs html = Inr pg \<longleftrightarrow>
     map extract_book (select ''article'' [''product_pod''] (bs html)) = map Inr pg"
  by (auto simp: parse_books_def parse_loop_Inr inj_map_eq_map)

lemma parse_books_pages:
  "map (parse_books bs) htmls = map Inr pgs \<Longrightarrow>
     map (\<lambda>html. map extract_book (select ''article'' [''product_pod''] (bs html))) htmls
       = map (map Inr) pgs"
proof (induction htmls arbitrary: pgs)
  case Nil
  then show ?case by simp
next
  case (Cons h hs)
  then obtain pg gs where "pgs = pg # gs" "parse_books bs h = Inr pg"
    "map (parse_books bs) hs = map Inr gs"
    by (auto simp: Cons_eq_map_conv)
  with Cons.IH [of gs] show ?case by (simp add: parse_books_Inr)
qed

subsection \<open>The loop over the pages\<close>

lemma get_page_snd: "snd (get_page net url tr) = tr @ [url]"
  by (simp add: get_page_def split: sum.splits)

lemma get_page_fst: "fst (get_page net url tr) = fst (get_page net url [])"
  by (simp add: get_page_def split: sum.splits)

lemma get_page_eq: "get_page net url tr = (fst (get_page net url []), tr @ [url])"
  by (metis get_page_fst get_page_snd prod.collapse)

lemma scrape_loop_Inr:
  assumes "scrape_loop net bs ps acc tr = (Inr r, tr')"
  shows "tr' = tr @ map page_url ps \<and>
     (\<exists>htmls pgs. map (\<lambda>k. fst (get_page net (page_url k) [])) ps = map Inr htmls
        \<and> map (parse_books bs) htmls = map Inr pgs \<and> r = acc @ concat pgs)"
  using assms
proof (induction ps arbitrary: acc tr)
  case Nil
  then show ?case by simp
next
  case (Cons p ps)
  from Cons.prems obtain html where html: "fst (get_page net (page_url p) []) = Inr html"
    by (subst (asm) scrape_loop.simps, subst (asm) get_page_eq) (auto split: sum.splits)
  with Cons.prems obtain pg where pg: "parse_books bs html = Inr pg"
    by (subst (asm) scrape_loop.simps, subst (asm) get_page_eq) (auto split: sum.splits)
  from Cons.prems html pg
  have "scrape_loop net bs ps (acc @ pg) (tr @ [page_url p]) = (Inr r, tr')"
    by (subst (asm) scrape_loop.simps, subst (asm) get_page_eq) simp
  from Cons.IH [OF this] obtain htmls pgs where
    tr': "tr' = (tr @ [page_url p]) @ map page_url ps"
    and h: "map (\<lambda>k. fst (get_page net (page_url k) [])) ps = map Inr htmls"
    and g: "map (parse_books bs) htmls = map Inr pgs" and r: "r = (acc @ pg) @ concat pgs"
    by blast
  have "map (\<lambda>k. fst (get_page net (page_url k) [])) (p # ps) = map Inr (html # htmls)"
    using html h by simp
  moreover have "map (parse_books bs) (html # htmls) = map Inr (pg # pgs)"
    using pg g by simp
  moreover have "r = acc @ concat (pg # pgs)" using r by simp
  ultimately show ?case using tr' by (intro conjI exI[of _ "html # htmls"] exI[of _ "pg # pgs"]) simp_all
qed

lemma scrape_loop_ok:
  assumes "map (\<lambda>k. fst (get_page net (page_url k) [])) ps = map Inr htmls"
    and "map (parse_books bs) htmls = map Inr pgs"
  shows "scrape_loop net bs ps acc tr = (Inr (acc @ concat pgs), tr @ map page_url ps)"
  using assms
proof (induction ps arbitrary: acc tr htmls pgs)
  case Nil
  then show ?case by simp
next
  case (Cons p ps)
  from Cons.prems(1) obtain html hs where hs: "htmls = html # hs"
    and html: "fst (get_page net (page_url p) []) = Inr html"
    and rest: "map (\<lambda>k. fst (get_page net (page_url k) [])) ps = map Inr hs"
    by (auto simp: Cons_eq_map_conv)
  from Cons.prems(2) hs obtain pg gs where gs: "pgs = pg # gs"
    and pg: "parse_books bs html = Inr pg" and rest': "map (parse_books bs) hs = map Inr gs"
    by (auto simp: Cons_eq_map_conv)
  have "scrape_loop net bs (p # ps) acc tr = scrape_loop net bs ps (acc @ pg) (tr @ [page_url p])"
    by (subst scrape_loop.simps, subst get_page_eq) (simp add: html pg)
  also have "\<dots> = (Inr ((acc @ pg) @ concat gs), (tr @ [page_url p]) @ map page_url ps)"
    by (rule Cons.IH [OF rest rest'])
  finally show ?case by (simp add: gs)
qed

lemma scrape_loop_fetch_fails:
  assumes "map (\<lambda>k. fst (get_page net (page_url k) [])) ps1 = map Inr htmls"
    and "map (parse_books bs) htmls = map Inr pgs"
    and "fst (get_page net (page_url p) []) = Inl e"
  shows "scrape_loop net bs (ps1 @ p # ps2) acc tr = (Inl e, tr @ map page_url (ps1 @ [p]))"
  using assms(1,2)
proof (induction ps1 arbitrary: acc tr htmls pgs)
  case Nil
  show ?case
    by (simp, subst get_page_eq) (simp add: assms(3))
next
  case (Cons q ps1)
  from Cons.prems(1) obtain html hs where hs: "htmls = html # hs"
    and html: "fst (get_page net (page_url q) []) = Inr html"
    and rest: "map (\<lambda>k. fst (get_page net (page_url k) [])) ps1 = map Inr hs"
    by (auto simp: Cons_eq_map_conv)
  from Cons.prems(2) hs obtain pg gs where gs: "pgs = pg # gs"
    and pg: "parse_books bs html = Inr pg" and rest': "map (parse_books bs) hs = map Inr gs"
    by (auto simp: Cons_eq_map_conv)
  have "scrape_loop net bs ((q # ps1) @ p # ps2) acc tr
      = scrape_loop net bs (ps1 @ p # ps2) (acc @ pg) (tr @ [page_url q])"
    by (simp, subst get_page_eq) (simp add: html pg)
  also have "\<dots> = (Inl e, (tr @ [page_url q]) @ map page_url (ps1 @ [p]))"
    by (rule Cons.IH [OF rest rest'])
  finally show ?case by simp
qed

lemma scrape_loop_trace:
  "\<exists>m \<le> length ps. snd (scrape_loop net bs ps acc tr) = tr @ map page_url (take m ps)"
proof (induction ps arbitrary: acc tr)
  case Nil
  then show ?case by simp
next
  case (Cons p ps)
  have stop: "\<exists>m \<le> length (p # ps). tr @ [page_url p] = tr @ map page_url (take m (p # ps))"
    by (rule exI[of _ 1]) simp
  show ?case
  proof (cases "fst (get_page net (page_url p) [])")
    case (Inl e)
    then have "snd (scrape_loop net bs (p # ps) acc tr) = tr @ [page_url p]"
      by (simp, subst get_page_eq) simp
    with stop show ?thesis by simp
  next
    case html: (Inr html)
    show ?thesis
    proof (cases "parse_books bs html")
      case (Inl e)
      with html have "snd (scrape_loop net bs (p # ps) acc tr) = tr @ [page_url p]"
        by (simp, subst get_page_eq) simp
      with stop show ?thesis by simp
    next
      case (Inr pg)
      with html have "scrape_loop net bs (p # ps) acc tr
          = scrape_loop net bs ps (acc @ pg) (tr @ [page_url p])"
        by (simp, subst get_page_eq) simp
      moreover from Cons.IH [of "acc @ pg" "tr @ [page_url p]"] obtain m where
        "m \<le> length ps"
        "snd (scrape_loop net bs ps (acc @ pg) (tr @ [page_url p])) = (tr @ [page_url p]) @ map page_url (take m ps)"
        by blast
      ultimately show ?thesis
        by (intro exI[of _ "Suc m"]) simp
    qed
  qed
qed

lemma split_pages: "1 \<le> k \<Longrightarrow> k \<le> N \<Longrightarrow> [1..N] = [1..k - 1] @ k # [k + 1..N]"
  by (rule upto_split3) simp_all

lemma scrape_books_Inr:
  assumes "scrape_books net bs N tr = (Inr df, tr')"
  shows "\<exists>htmls pgs vs. tr' = tr @ map page_url [1..N]
      \<and> map (\<lambda>k. fst (get_page net (page_url k) [])) [1..N] = map Inr htmls
      \<and> map (parse_books bs) htmls = map Inr pgs
      \<and> map (\<lambda>b. py_float (re_sub (price_raw b))) (concat pgs) = map Inr vs
      \<and> rows df = map (\<lambda>(b, p). with_price b p) (zip (concat pgs) vs)"
proof -
  from assms obtain all_books where loop: "scrape_loop net bs [1..N] [] tr = (Inr all_books, tr')"
    and cp: "clean_prices all_books = Inr df"
    by (auto simp: scrape_books_def split: prod.splits sum.splits)
  from scrape_loop_Inr [OF loop] obtain htmls pgs where
    "tr' = tr @ map page_url [1..N]"
    "map (\<lambda>k. fst (get_page net (page_url k) [])) [1..N] = map Inr htmls"
    "map (parse_books bs) htmls = map Inr pgs" "all_books = concat pgs"
    by auto
  moreover from clean_prices_Inr(2) [OF cp] obtain vs where
    "map (\<lambda>b. py_float (re_sub (price_raw b))) all_books = map Inr vs"
    "rows df = map (\<lambda>(b, p). with_price b p) (zip all_books vs)"
    by auto
  ultimately show ?thesis by blast
qed

lemma truncate_with_price: "book.truncate (with_price b p) = b"
  by (simp add: with_price_def book.truncate_def)

lemma rows_truncate:
  assumes "length books = length vs"
  shows "map book.truncate (map (\<lambda>(b, p). with_price b p) (zip books vs)) = books"
  using assms by (induction books vs rule: list_induct2) (simp_all add: truncate_with_price)

subsection \<open>The claims\<close>

text \<open>
  Claim C1. For a page count \<open>N\<close> of at least 1 the requests go out in increasing page
  order and are never more than \<open>N\<close>; they are the \<open>N\<close> URLs of the pages 1 to \<open>N\<close> when
  every page is fetched and extracted. When \<open>scrape_books\<close> returns a table it has
  requested exactly the \<open>N\<close> URLs of the pages 1 to \<open>N\<close>, in this order, and the table has
  as many rows as the record extractor returned for these pages together. Page 1 is the
  base URL, a page \<open>k\<close> from 2 on is \<open>catalogue/page-k.html\<close> under the base URL.
\<close>

theorem pagination:
  assumes "1 \<le> N"
  shows "(\<exists>m \<le> nat N. snd (scrape_books net BeautifulSoup N tr) = tr @ map page_url (take m [1..N]))
    \<and> (\<forall>df tr'. scrape_books net BeautifulSoup N tr = (Inr df, tr') \<longrightarrow>
          tr' = tr @ map page_url [1..N]
        \<and> length (map page_url [1..N]) = nat N
        \<and> (\<exists>htmls pgs.
              map (\<lambda>k. fst (get_page net (page_url k) [])) [1..N] = map Inr htmls
            \<and> map (parse_books BeautifulSoup) htmls = map Inr pgs
            \<and> length (rows df) = sum_list (map length pgs)))
    \<and> (\<forall>htmls pgs.
          map (\<lambda>k. fst (get_page net (page_url k) [])) [1..N] = map Inr htmls
        \<and> map (parse_books BeautifulSoup) htmls = map Inr pgs
        \<longrightarrow> snd (scrape_books net BeautifulSoup N tr) = tr @ map page_url [1..N])
    \<and> page_url 1 = BASE_URL
    \<and> (\<forall>k. 2 \<le> k \<longrightarrow> page_url k = BASE_URL @ ''catalogue/page-'' @ str_int k @ ''.html'')"
proof (intro conjI allI impI)
  have len: "length [1..N] = nat N" by simp
  have snd_eq: "snd (scrape_books net BeautifulSoup N tr)
      = snd (scrape_loop net BeautifulSoup [1..N] [] tr)"
    by (simp add: scrape_books_def split: prod.splits sum.splits)
  {
    fix htmls pgs
    assume "map (\<lambda>k. fst (get_page net (page_url k) [])) [1..N] = map Inr htmls
        \<and> map (parse_books BeautifulSoup) htmls = map Inr pgs"
    then have h: "map (\<lambda>k. fst (get_page net (page_url k) [])) [1..N] = map Inr htmls"
      and g: "map (parse_books BeautifulSoup) htmls = map Inr pgs"
      by blast+
    have "scrape_loop net BeautifulSoup [1..N] [] tr
        = (Inr ([] @ concat pgs), tr @ map page_url [1..N])"
      by (rule scrape_loop_ok [OF h g])
    then show "snd (scrape_books net BeautifulSoup N tr) = tr @ map page_url [1..N]"
      by (simp add: snd_eq)
  }
  from scrape_loop_trace [of "[1..N]" net BeautifulSoup "[]" tr]
  obtain m where "m \<le> length [1..N]"
    "snd (scrape_loop net BeautifulSoup [1..N] [] tr) = tr @ map page_url (take m [1..N])" by blast
  moreover have "snd (scrape_books net BeautifulSoup N tr) = snd (scrape_loop net BeautifulSoup [1..N] [] tr)"
    by (simp add: scrape_books_def split: prod.splits sum.splits)
  ultimately show "\<exists>m \<le> nat N. snd (scrape_books net BeautifulSoup N tr) = tr @ map page_url (take m [1..N])"
    using len by auto
  show "length (map page_url [1..N]) = nat N" by simp
  show "page_url 1 = BASE_URL" by (simp add: page_url_def)
  show "\<And>k. 2 \<le> k \<Longrightarrow> page_url k = BASE_URL @ ''catalogue/page-'' @ str_int k @ ''.html''"
    by (simp add: page_url_def)
next
  fix df tr'
  assume run: "scrape_books net BeautifulSoup N tr = (Inr df, tr')"
  from scrape_books_Inr [OF run] obtain htmls pgs vs where
    tr': "tr' = tr @ map page_url [1..N]"
    and h: "map (\<lambda>k. fst (get_page net (page_url k) [])) [1..N] = map Inr htmls"
    and g: "map (parse_books BeautifulSoup) htmls = map Inr pgs"
    and v: "map (\<lambda>b. py_float (re_sub (price_raw b))) (concat pgs) = map Inr vs"
    and rows: "rows df = map (\<lambda>(b, p). with_price b p) (zip (concat pgs) vs)"
    by blast
  show "tr' = tr @ map page_url [1..N]" by (rule tr')
  from v have "length (concat pgs) = length vs" by (metis length_map)
  with rows have "length (rows df) = sum_list (map length pgs)"
    by (simp add: length_concat)
  with h g show "\<exists>htmls pgs.
              map (\<lambda>k. fst (get_page net (page_url k) [])) [1..N] = map Inr htmls
            \<and> map (parse_books BeautifulSoup) htmls = map Inr pgs
            \<and> length (rows df) = sum_list (map length pgs)" by blast
qed

theorem pagination_witness:
  "(1::int) \<le> 2
   \<and> scrape_books example_net example_soup 2 []
      = (Inr \<lparr>columns = [''title'', ''price_raw'', ''availability'', ''rating'', ''price_clean''],
               rows = [\<lparr>title = ''A Light'', price_raw = CHR 0xA3 # ''51.77'',
                        availability = ''In stock'', rating = Some ''Three'',
                        price_clean = 5177 / 100\<rparr>,
                       \<lparr>title = ''Tipping'', price_raw = CHR 0xC2 # ''53.74'',
                        availability = ''In stock'', rating = None,
                        price_clean = 2687 / 50\<rparr>,
                       \<lparr>title = ''A Light'', price_raw = CHR 0xA3 # ''51.77'',
                        availability = ''In stock'', rating = Some ''Three'',
                        price_clean = 5177 / 100\<rparr>]\<rparr>,
         [''https://books.toscrape.com/'', ''https://books.toscrape.com/catalogue/page-2.html''])
   \<and> map page_url [1..2]
      = [''https://books.toscrape.com/'', ''https://books.toscrape.com/catalogue/page-2.html'']
   \<and> (\<exists>htmls pgs.
         map (\<lambda>k. fst (get_page example_net (page_url k) [])) [1..2] = map Inr htmls
       \<and> map (parse_books example_soup) htmls = map Inr pgs
       \<and> (3::nat) = sum_list (map length pgs))
   \<and> map (\<lambda>k. fst (get_page example_net (page_url k) [])) [1..2] = map Inr [''one'', ''two'']
   \<and> \<not> isl (parse_books example_soup ''one'') \<and> \<not> isl (parse_books example_soup ''two'')
   \<and> snd (scrape_books example_net example_soup 2 []) = [] @ map page_url [1..2]
   \<and> (2::int) \<le> 2
   \<and> page_url 2 = BASE_URL @ ''catalogue/page-'' @ str_int 2 @ ''.html''"
proof -
  let ?df = "\<lparr>columns = [''title'', ''price_raw'', ''availability'', ''rating'', ''price_clean''],
               rows = [\<lparr>title = ''A Light'', price_raw = CHR 0xA3 # ''51.77'',
                        availability = ''In stock'', rating = Some ''Three'',
                        price_clean = 5177 / 100\<rparr>,
                       \<lparr>title = ''Tipping'', price_raw = CHR 0xC2 # ''53.74'',
                        availability = ''In stock'', rating = None,
                        price_clean = 2687 / 50\<rparr>,
                       \<lparr>title = ''A Light'', price_raw = CHR 0xA3 # ''51.77'',
                        availability = ''In stock'', rating = Some ''Three'',
                        price_clean = 5177 / 100\<rparr>]\<rparr>"
  let ?tr = "[''https://books.toscrape.com/'', ''https://books.toscrape.com/catalogue/page-2.html'']"
  have run: "scrape_books example_net example_soup 2 [] = (Inr ?df, ?tr)"
    by code_simp
  have urls: "map page_url [1..2] = ?tr" by code_simp
  have one: "(1::int) \<le> 2" by simp
  have two: "(2::int) \<le> 2" by simp
  note p = pagination [OF one, of example_net example_soup "[]"]
  from p run obtain htmls pgs where
    h: "map (\<lambda>k. fst (get_page example_net (page_url k) [])) [1..2] = map Inr htmls"
    and g: "map (parse_books example_soup) htmls = map Inr pgs"
    and l: "length (rows ?df) = sum_list (map length pgs)"
    by blast
  from l have "(3::nat) = sum_list (map length pgs)" by simp
  with h g have ex: "\<exists>htmls pgs.
         map (\<lambda>k. fst (get_page example_net (page_url k) [])) [1..2] = map Inr htmls
       \<and> map (parse_books example_soup) htmls = map Inr pgs
       \<and> (3::nat) = sum_list (map length pgs)"
    by blast
  from p two have url: "page_url 2 = BASE_URL @ ''catalogue/page-'' @ str_int 2 @ ''.html''"
    by blast
  have h2: "map (\<lambda>k. fst (get_page example_net (page_url k) [])) [1..2]
      = map Inr [''one'', ''two'']"
    by code_simp
  have g1: "\<not> isl (parse_books example_soup ''one'')"
    and g2: "\<not> isl (parse_books example_soup ''two'')"
    by code_simp+
  then have "map (parse_books example_soup) [''one'', ''two'']
      = map Inr [projr (parse_books example_soup ''one''), projr (parse_books example_soup ''two'')]"
    by simp
  with p h2 have all: "snd (scrape_books example_net example_soup 2 []) = [] @ map page_url [1..2]"
    by blast
  from one run urls ex h2 g1 g2 all two url show ?thesis
    by (intro conjI) assumption+
qed

text \<open>
  Claim C2. The price column of a table that \<open>clean_prices\<close> returns holds, for each
  row, the number read from the raw price after every character other than a digit
  or a dot is removed, and that number is not negative. For any string, the number is
  the digits of the string read as one decimal numeral, divided by ten for each digit
  after the dot. The pound sign before
  \<open>51.77\<close>, any single character that is neither digit nor dot before \<open>51.77\<close>, and
  \<open>51.77\<close> alone all give 51.77.
\<close>

theorem price_clean_value:
  "(\<forall>books df. clean_prices books = Inr df \<longrightarrow>
      (\<forall>r \<in> set (rows df).
          py_float (filter (\<lambda>c. c \<in> set ''0123456789.'') (price_raw r)) = Inr (price_clean r)
          \<and> 0 \<le> price_clean r))
   \<and> (\<forall>s v. py_float (re_sub s) = Inr v \<longrightarrow>
          0 \<le> v
        \<and> v = of_nat (digits_value 0 (filter ascii_digit s))
                / 10 ^ (length (dropWhile ascii_digit (re_sub s)) - 1))
   \<and> py_float (re_sub (CHR 0xA3 # ''51.77'')) = Inr (5177 / 100)
   \<and> (\<forall>c. c \<notin> set ''0123456789.'' \<longrightarrow> py_float (re_sub (c # ''51.77'')) = Inr (5177 / 100))
   \<and> py_float (re_sub ''51.77'') = Inr (5177 / 100)"
proof (intro conjI allI impI ballI)
  fix books df r
  assume "clean_prices books = Inr df" "r \<in> set (rows df)"
  then have "py_float (re_sub (price_raw r)) = Inr (price_clean r)" by (rule clean_prices_row)
  then show "py_float (filter (\<lambda>c. c \<in> set ''0123456789.'') (price_raw r)) = Inr (price_clean r)"
    and "0 \<le> price_clean r"
    by (simp_all add: re_sub_filter py_float_nonneg)
next
  fix s v
  assume v: "py_float (re_sub s) = Inr v"
  then show "0 \<le> v" by (rule py_float_nonneg)
  have "filter ascii_digit (re_sub s) = filter ascii_digit s"
    by (induction s) simp_all
  with py_float_decimal [OF v]
  show "v = of_nat (digits_value 0 (filter ascii_digit s))
              / 10 ^ (length (dropWhile ascii_digit (re_sub s)) - 1)"
    by simp
next
  show clean: "py_float (re_sub ''51.77'') = Inr (5177 / 100)"
    by (simp add: py_float_def ascii_digit_def)
  show "py_float (re_sub (CHR 0xA3 # ''51.77'')) = Inr (5177 / 100)"
    by (simp add: py_float_def ascii_digit_def)
  fix c :: char
  assume "c \<notin> set ''0123456789.''"
  then have "\<not> (ascii_digit c \<or> c = CHR ''.'')"
    using alphabet_iff by blast
  then have "re_sub (c # ''51.77'') = re_sub ''51.77''"
    by simp
  with clean show "py_float (re_sub (c # ''51.77'')) = Inr (5177 / 100)" by simp
qed

theorem price_clean_value_witness:
  "clean_prices [\<lparr>title = ''A'', price_raw = CHR 0xC2 # CHR 0xA3 # ''10.50'',
                   availability = ''In stock'', rating = Some ''Two''\<rparr>]
     = Inr \<lparr>columns = [''title'', ''price_raw'', ''availability'', ''rating'', ''price_clean''],
            rows = [\<lparr>title = ''A'', price_raw = CHR 0xC2 # CHR 0xA3 # ''10.50'',
                     availability = ''In stock'', rating = Some ''Two'',
                     price_clean = 21 / 2\<rparr>]\<rparr>
   \<and> py_float (filter (\<lambda>c. c \<in> set ''0123456789.'') (CHR 0xC2 # CHR 0xA3 # ''10.50''))
       = Inr (21 / 2)
   \<and> py_float (re_sub (CHR 0xC2 # CHR 0xA3 # ''10.50'')) = Inr (21 / 2)
   \<and> (21 / 2 :: rat) = of_nat (digits_value 0 ''1050'') / 10 ^ 2
   \<and> CHR 0xC2 \<notin> set ''0123456789.''
   \<and> py_float (re_sub (CHR 0xC2 # ''51.77'')) = Inr (5177 / 100)"
proof -
  let ?s = "CHR 0xC2 # CHR 0xA3 # ''10.50''"
  let ?b = "\<lparr>title = ''A'', price_raw = ?s,
             availability = ''In stock'', rating = Some ''Two''\<rparr>"
  let ?df = "\<lparr>columns = [''title'', ''price_raw'', ''availability'', ''rating'', ''price_clean''],
              rows = [\<lparr>title = ''A'', price_raw = ?s,
                       availability = ''In stock'', rating = Some ''Two'',
                       price_clean = 21 / 2\<rparr>]\<rparr>"
  have run: "clean_prices [?b] = Inr ?df"
    by (simp add: clean_prices_def DataFrame_def getitem_price_raw_def str_replace_def
        py_float_def ascii_digit_def setitem_price_clean_def with_price_def)
  have ok: "py_float (re_sub ?s) = Inr (21 / 2)"
    by (simp add: py_float_def ascii_digit_def)
  have c: "CHR 0xC2 \<notin> set ''0123456789.''" by simp
  from price_clean_value have
    "\<forall>r \<in> set (rows ?df).
        py_float (filter (\<lambda>c. c \<in> set ''0123456789.'') (price_raw r)) = Inr (price_clean r)"
    using run by blast
  then have row: "py_float (filter (\<lambda>c. c \<in> set ''0123456789.'') ?s) = Inr (21 / 2)"
    by simp
  from price_clean_value ok
  have "(21 / 2 :: rat) = of_nat (digits_value 0 (filter ascii_digit ?s))
                / 10 ^ (length (dropWhile ascii_digit (re_sub ?s)) - 1)"
    by blast
  then have val: "(21 / 2 :: rat) = of_nat (digits_value 0 ''1050'') / 10 ^ 2"
    by (simp add: ascii_digit_def)
  from price_clean_value c
  have new: "py_float (re_sub (CHR 0xC2 # ''51.77'')) = Inr (5177 / 100)" by blast
  from run row ok val c new show ?thesis
    by (intro conjI) assumption+
qed

text \<open>
  Claim C3. A raw price whose filtered remainder is empty, has two or more dots or
  is otherwise not a number makes the conversion raise \<open>ValueError\<close>; the error names
  the filtered remainder, which for \<open>abc\<close> is the empty string and not \<open>abc\<close>. A table
  that holds such a price is not built: \<open>clean_prices\<close> raises the error of the first
  such row and returns no value in its place.
\<close>

theorem price_failure:
  assumes "re_sub s = [] \<or> 2 \<le> count_list (re_sub s) (CHR ''.'')
           \<or> (\<exists>e. py_float (re_sub s) = Inl e)"
  shows "py_float (re_sub s) = Inl (ValueError (re_sub s))
       \<and> (\<forall>books. (\<exists>b \<in> set books. price_raw b = s) \<longrightarrow>
            (\<exists>b' \<in> set books. clean_prices books = Inl (ValueError (re_sub (price_raw b')))))"
proof -
  have f: "py_float (re_sub s) = Inl (ValueError (re_sub s))"
    using assms
  proof (elim disjE exE)
    assume "re_sub s = []"
    then show ?thesis by (simp add: py_float_def)
  next
    assume "2 \<le> count_list (re_sub s) (CHR ''.'')"
    then show ?thesis by (rule py_float_two_dots)
  next
    fix e assume "py_float (re_sub s) = Inl e"
    then show ?thesis using py_float_error by blast
  qed
  then show ?thesis using clean_prices_fails by blast
qed

theorem price_failure_witness:
  "2 \<le> count_list (re_sub ''1.2.3'') (CHR ''.'')
   \<and> py_float (re_sub ''1.2.3'') = Inl (ValueError ''1.2.3'')
   \<and> clean_prices [\<lparr>title = ''A'', price_raw = ''1.2.3'', availability = ''In stock'',
                      rating = None\<rparr>] = Inl (ValueError ''1.2.3'')"
proof -
  have r: "re_sub ''1.2.3'' = ''1.2.3''" by (simp add: ascii_digit_def)
  have h: "2 \<le> count_list (re_sub ''1.2.3'') (CHR ''.'')"
    unfolding r by simp
  let ?b = "\<lparr>title = ''A'', price_raw = ''1.2.3'', availability = ''In stock'',
             rating = None\<rparr>"
  have "re_sub ''1.2.3'' = [] \<or> 2 \<le> count_list (re_sub ''1.2.3'') (CHR ''.'')
        \<or> (\<exists>e. py_float (re_sub ''1.2.3'') = Inl e)"
    using h by blast
  from price_failure [OF this]
  have a: "py_float (re_sub ''1.2.3'') = Inl (ValueError (re_sub ''1.2.3''))"
    and b: "\<forall>books. (\<exists>b \<in> set books. price_raw b = ''1.2.3'') \<longrightarrow>
            (\<exists>b' \<in> set books. clean_prices books = Inl (ValueError (re_sub (price_raw b'))))"
    by blast+
  have "\<exists>b \<in> set [?b]. price_raw b = ''1.2.3''" by simp
  with b have "\<exists>b' \<in> set [?b]. clean_prices [?b] = Inl (ValueError (re_sub (price_raw b')))"
    by blast
  then have "clean_prices [?b] = Inl (ValueError ''1.2.3'')"
    by (simp add: ascii_digit_def)
  with a h show ?thesis by (simp add: ascii_digit_def)
qed

theorem price_failure_counterexample:
  "py_float (re_sub ''abc'') = Inl (ValueError '''')
   \<and> py_float (re_sub ''abc'') \<noteq> Inl (ValueError ''abc'')"
  by (simp add: py_float_def ascii_digit_def)

text \<open>
  Claim C4. When a product node of the page has no heading, no anchor in the heading,
  no \<open>title\<close> attribute on the anchor, no price element or no stock element,
  \<open>parse_books\<close> raises and returns no records. What the spec calls a parse error is,
  in the source, the \<open>AttributeError\<close>, \<open>TypeError\<close> or \<open>KeyError\<close> of the failed access.
\<close>

theorem missing_field_raises:
  assumes "art \<in> set (select ''article'' [''product_pod''] (BeautifulSoup html))"
    and "find_tag ''h3'' art = None
       \<or> (\<exists>h3. find_tag ''h3'' art = Some h3 \<and> find_tag ''a'' h3 = None)
       \<or> (\<exists>h3 n cs as ks. find_tag ''h3'' art = Some h3
             \<and> find_tag ''a'' h3 = Some (Tag n cs as ks) \<and> map_of as ''title'' = None)
       \<or> select_one ''p'' [''price_color''] art = None
       \<or> select_one ''p'' [''instock'', ''availability''] art = None"
  shows "\<exists>e. parse_books BeautifulSoup html = Inl e
       \<and> (e = AttributeError \<or> e = TypeError \<or> e = KeyError ''title'')"
proof -
  have "\<exists>e. extract_book art = Inl e"
    using assms(2)
    by (auto simp: extract_book_def title_of_def price_text_of_def availability_of_def
        split: sum.splits option.splits)
  then obtain e where "extract_book art = Inl e" ..
  from parse_loop_fails [OF assms(1) this]
  obtain e' where e': "parse_books BeautifulSoup html = Inl e'"
    by (auto simp: parse_books_def)
  then obtain a where "extract_book a = Inl e'"
    unfolding parse_books_def using parse_loop_Inl by blast
  with e' show ?thesis using extract_book_error by blast
qed

theorem missing_field_raises_witness:
  "no_price_pod \<in> set (select ''article'' [''product_pod''] (example_soup ''broken''))
   \<and> select_one ''p'' [''price_color''] no_price_pod = None
   \<and> parse_books example_soup ''broken'' = Inl AttributeError"
proof -
  have a: "no_price_pod \<in> set (select ''article'' [''product_pod''] (example_soup ''broken''))"
    by code_simp
  have b: "select_one ''p'' [''price_color''] no_price_pod = None"
    by code_simp
  have c: "parse_books example_soup ''broken'' = Inl AttributeError"
    by code_simp
  from b have "find_tag ''h3'' no_price_pod = None
       \<or> (\<exists>h3. find_tag ''h3'' no_price_pod = Some h3 \<and> find_tag ''a'' h3 = None)
       \<or> (\<exists>h3 n cs as ks. find_tag ''h3'' no_price_pod = Some h3
             \<and> find_tag ''a'' h3 = Some (Tag n cs as ks) \<and> map_of as ''title'' = None)
       \<or> select_one ''p'' [''price_color''] no_price_pod = None
       \<or> select_one ''p'' [''instock'', ''availability''] no_price_pod = None"
    by blast
  from missing_field_raises
    [where art = no_price_pod and BeautifulSoup = example_soup and html = "''broken''", OF a this]
  have "\<exists>e. parse_books example_soup ''broken'' = Inl e" by blast
  with a b c show ?thesis by blast
qed

text \<open>
  Claim C5. When a product node has no rating element, or its rating element has fewer
  than two class tokens, the rating of the record is \<open>None\<close>; the record holds the other
  three fields as extracted, and an error of the extraction is an error of one of those
  three fields.
\<close>

theorem rating_degrades:
  assumes "select_one ''p'' [''star-rating''] art = None
       \<or> (\<exists>rating_tag. select_one ''p'' [''star-rating''] art = Some rating_tag
             \<and> length (getitem_class rating_tag) < 2)"
  shows "rating_of art = None
     \<and> (\<forall>t p a. title_of art = Inr t \<and> price_text_of art = Inr p \<and> availability_of art = Inr a
           \<longrightarrow> extract_book art
                = Inr \<lparr>title = t, price_raw = p, availability = a, rating = None\<rparr>)
     \<and> (\<forall>e. extract_book art = Inl e
           \<longrightarrow> title_of art = Inl e \<or> price_text_of art = Inl e \<or> availability_of art = Inl e)"
proof -
  from assms have r: "rating_of art = None"
    by (auto simp: rating_of_def)
  then show ?thesis
    by (auto simp: extract_book_def split: sum.splits)
qed

theorem rating_degrades_witness:
  "select_one ''p'' [''star-rating'']
       (product_pod ''Tipping'' (CHR 0xC2 # ''53.74'') [''star-rating''])
     = Some (Tag ''p'' [''star-rating''] [] [Tag ''i'' [''icon-star''] [] []])
   \<and> length (getitem_class (Tag ''p'' [''star-rating''] [] [Tag ''i'' [''icon-star''] [] []])) < 2
   \<and> extract_book (product_pod ''Tipping'' (CHR 0xC2 # ''53.74'') [''star-rating''])
     = Inr \<lparr>title = ''Tipping'', price_raw = CHR 0xC2 # ''53.74'',
            availability = ''In stock'', rating = None\<rparr>"
proof -
  let ?art = "product_pod ''Tipping'' (CHR 0xC2 # ''53.74'') [''star-rating'']"
  let ?tag = "Tag ''p'' [''star-rating''] [] [Tag ''i'' [''icon-star''] [] []]"
  have sel: "select_one ''p'' [''star-rating''] ?art = Some ?tag" by code_simp
  have len: "length (getitem_class ?tag) < 2" by simp
  have t: "title_of ?art = Inr ''Tipping''" by code_simp
  have p: "price_text_of ?art = Inr (CHR 0xC2 # ''53.74'')" by code_simp
  have a: "availability_of ?art = Inr ''In stock''" by code_simp
  from sel len have "select_one ''p'' [''star-rating''] ?art = None
       \<or> (\<exists>rating_tag. select_one ''p'' [''star-rating''] ?art = Some rating_tag
             \<and> length (getitem_class rating_tag) < 2)"
    by blast
  from rating_degrades [OF this] t p a
  have "extract_book ?art = Inr \<lparr>title = ''Tipping'', price_raw = CHR 0xC2 # ''53.74'',
            availability = ''In stock'', rating = None\<rparr>"
    by blast
  with sel len show ?thesis by blast
qed

text \<open>
  Claim C6. The rows of a returned table, without the price column, are the records of
  the product nodes of page 1 in document order, then those of page 2, and so on to
  page \<open>N\<close>: one row for each product node, none dropped, merged or moved, so a title
  that occurs on two pages occurs in two rows.
\<close>

theorem table_order:
  assumes "scrape_books net BeautifulSoup N tr = (Inr df, tr')"
  shows "\<exists>htmls. map (\<lambda>k. fst (get_page net (page_url k) [])) [1..N] = map Inr htmls
      \<and> map (\<lambda>r. Inr (book.truncate r)) (rows df)
          = concat (map (\<lambda>html. map extract_book
                (select ''article'' [''product_pod''] (BeautifulSoup html))) htmls)"
proof -
  from scrape_books_Inr [OF assms] obtain htmls pgs vs where
    h: "map (\<lambda>k. fst (get_page net (page_url k) [])) [1..N] = map Inr htmls"
    and g: "map (parse_books BeautifulSoup) htmls = map Inr pgs"
    and v: "map (\<lambda>b. py_float (re_sub (price_raw b))) (concat pgs) = map Inr vs"
    and rows: "rows df = map (\<lambda>(b, p). with_price b p) (zip (concat pgs) vs)"
    by blast
  from v have "length (concat pgs) = length vs" by (metis length_map)
  then have "map book.truncate (rows df) = concat pgs"
    unfolding rows by (rule rows_truncate)
  then have "map (\<lambda>r. Inr (book.truncate r)) (rows df) = map Inr (concat pgs)"
    by (metis (no_types, lifting) map_map comp_def map_eq_conv)
  also have "\<dots> = concat (map (map Inr) pgs)" by (simp add: map_concat)
  also have "\<dots> = concat (map (\<lambda>html. map extract_book
                (select ''article'' [''product_pod''] (BeautifulSoup html))) htmls)"
    by (simp add: parse_books_pages [OF g])
  finally show ?thesis using h by blast
qed

theorem table_order_witness:
  "scrape_books example_net example_soup 2 []
      = (Inr \<lparr>columns = [''title'', ''price_raw'', ''availability'', ''rating'', ''price_clean''],
               rows = [\<lparr>title = ''A Light'', price_raw = CHR 0xA3 # ''51.77'',
                        availability = ''In stock'', rating = Some ''Three'',
                        price_clean = 5177 / 100\<rparr>,
                       \<lparr>title = ''Tipping'', price_raw = CHR 0xC2 # ''53.74'',
                        availability = ''In stock'', rating = None,
                        price_clean = 2687 / 50\<rparr>,
                       \<lparr>title = ''A Light'', price_raw = CHR 0xA3 # ''51.77'',
                        availability = ''In stock'', rating = Some ''Three'',
                        price_clean = 5177 / 100\<rparr>]\<rparr>,
         [''https://books.toscrape.com/'', ''https://books.toscrape.com/catalogue/page-2.html''])
   \<and> map (\<lambda>k. fst (get_page example_net (page_url k) [])) [1..2] = map Inr [''one'', ''two'']
   \<and> concat (map (\<lambda>html. map extract_book
                (select ''article'' [''product_pod''] (example_soup html))) [''one'', ''two''])
      = [Inr \<lparr>title = ''A Light'', price_raw = CHR 0xA3 # ''51.77'',
               availability = ''In stock'', rating = Some ''Three''\<rparr>,
         Inr \<lparr>title = ''Tipping'', price_raw = CHR 0xC2 # ''53.74'',
               availability = ''In stock'', rating = None\<rparr>,
         Inr \<lparr>title = ''A Light'', price_raw = CHR 0xA3 # ''51.77'',
               availability = ''In stock'', rating = Some ''Three''\<rparr>]"
proof -
  let ?df = "\<lparr>columns = [''title'', ''price_raw'', ''availability'', ''rating'', ''price_clean''],
               rows = [\<lparr>title = ''A Light'', price_raw = CHR 0xA3 # ''51.77'',
                        availability = ''In stock'', rating = Some ''Three'',
                        price_clean = 5177 / 100\<rparr>,
                       \<lparr>title = ''Tipping'', price_raw = CHR 0xC2 # ''53.74'',
                        availability = ''In stock'', rating = None,
                        price_clean = 2687 / 50\<rparr>,
                       \<lparr>title = ''A Light'', price_raw = CHR 0xA3 # ''51.77'',
                        availability = ''In stock'', rating = Some ''Three'',
                        price_clean = 5177 / 100\<rparr>]\<rparr>"
  let ?tr = "[''https://books.toscrape.com/'', ''https://books.toscrape.com/catalogue/page-2.html'']"
  have run: "scrape_books example_net example_soup 2 [] = (Inr ?df, ?tr)"
    by code_simp
  have pages: "map (\<lambda>k. fst (get_page example_net (page_url k) [])) [1..2]
      = map Inr [''one'', ''two'']"
    by code_simp
  from table_order [OF run] obtain htmls where
    h: "map (\<lambda>k. fst (get_page example_net (page_url k) [])) [1..2] = map Inr htmls"
    and r: "map (\<lambda>r. Inr (book.truncate r)) (rows ?df)
          = concat (map (\<lambda>html. map extract_book
                (select ''article'' [''product_pod''] (example_soup html))) htmls)"
    by blast
  from h pages have "map (Inr :: string \<Rightarrow> error + string) htmls = map Inr [''one'', ''two'']"
    by simp
  then have "htmls = [''one'', ''two'']"
    by (rule map_injective) simp
  with r have "concat (map (\<lambda>html. map extract_book
                (select ''article'' [''product_pod''] (example_soup html))) [''one'', ''two''])
      = map (\<lambda>r. Inr (book.truncate r)) (rows ?df)"
    by simp
  then show ?thesis using run pages by (simp add: book.truncate_def)
qed

text \<open>
  Claim C7. Every row of a returned table has a price that is the number read from its
  filtered raw price and is not negative, and is the record of a product node of one of
  the pages 1 to \<open>N\<close>: its title is the \<open>title\<close> attribute of the heading anchor, its
  raw price and its availability are the stripped texts of the two elements, its rating
  is \<open>None\<close> or the second class token of the rating element. Nothing makes the title or
  the availability non-empty or the rating one of the five ordinals: the table of the
  page \<open>odd\<close> has a row with an empty title and the rating \<open>Ten\<close>.
\<close>

theorem table_invariant:
  assumes "scrape_books net BeautifulSoup N tr = (Inr df, tr')" and "r \<in> set (rows df)"
  shows "0 \<le> price_clean r \<and> py_float (re_sub (price_raw r)) = Inr (price_clean r)
     \<and> (\<exists>k \<in> {1..N}. \<exists>html art. fst (get_page net (page_url k) []) = Inr html
           \<and> art \<in> set (select ''article'' [''product_pod''] (BeautifulSoup html))
           \<and> title_of art = Inr (title r)
           \<and> price_text_of art = Inr (price_raw r)
           \<and> availability_of art = Inr (availability r)
           \<and> rating r = rating_of art)"
proof -
  from scrape_books_Inr [OF assms(1)] obtain htmls pgs vs where
    h: "map (\<lambda>k. fst (get_page net (page_url k) [])) [1..N] = map Inr htmls"
    and g: "map (parse_books BeautifulSoup) htmls = map Inr pgs"
    and v: "map (\<lambda>b. py_float (re_sub (price_raw b))) (concat pgs) = map Inr vs"
    and rows: "rows df = map (\<lambda>(b, p). with_price b p) (zip (concat pgs) vs)"
    by blast
  from v have len: "length (concat pgs) = length vs" by (metis length_map)
  from assms(2) rows obtain b p where bp: "(b, p) \<in> set (zip (concat pgs) vs)"
    and r: "r = with_price b p" by auto
  from bp obtain i where i: "i < length (concat pgs)" "concat pgs ! i = b" "vs ! i = p"
    using len by (auto simp: in_set_zip)
  from v i len have "py_float (re_sub (price_raw b)) = Inr p" by (metis nth_map)
  then have price: "py_float (re_sub (price_raw r)) = Inr (price_clean r)"
    by (simp add: r with_price_def)
  from bp have "b \<in> set (concat pgs)" by (rule set_zip_leftD)
  then obtain pg where pg: "pg \<in> set pgs" "b \<in> set pg" by auto
  from map_Inr_source [OF g pg(1)] obtain html where
    html: "html \<in> set htmls" "parse_books BeautifulSoup html = Inr pg" by blast
  from map_Inr_source [OF h html(1)] obtain k where
    k: "k \<in> set [1..N]" "fst (get_page net (page_url k) []) = Inr html" by blast
  from html(2) have "map extract_book (select ''article'' [''product_pod''] (BeautifulSoup html))
      = map Inr pg" by (simp add: parse_books_Inr)
  from map_Inr_source [OF this pg(2)] obtain art where
    art: "art \<in> set (select ''article'' [''product_pod''] (BeautifulSoup html))"
    "extract_book art = Inr b" by blast
  from art(2) have "title_of art = Inr (title r)" "price_text_of art = Inr (price_raw r)"
    "availability_of art = Inr (availability r)" "rating r = rating_of art"
    by (simp_all add: extract_book_Inr r with_price_def)
  moreover from k(1) have "k \<in> {1..N}" by simp
  ultimately have "\<exists>k \<in> {1..N}. \<exists>html art. fst (get_page net (page_url k) []) = Inr html
           \<and> art \<in> set (select ''article'' [''product_pod''] (BeautifulSoup html))
           \<and> title_of art = Inr (title r)
           \<and> price_text_of art = Inr (price_raw r)
           \<and> availability_of art = Inr (availability r)
           \<and> rating r = rating_of art"
    using k(2) art(1) by blast
  with price show ?thesis using py_float_nonneg by blast
qed

theorem table_invariant_witness:
  "scrape_books example_net example_soup 1 []
      = (Inr \<lparr>columns = [''title'', ''price_raw'', ''availability'', ''rating'', ''price_clean''],
               rows = [\<lparr>title = ''A Light'', price_raw = CHR 0xA3 # ''51.77'',
                        availability = ''In stock'', rating = Some ''Three'',
                        price_clean = 5177 / 100\<rparr>,
                       \<lparr>title = ''Tipping'', price_raw = CHR 0xC2 # ''53.74'',
                        availability = ''In stock'', rating = None,
                        price_clean = 2687 / 50\<rparr>]\<rparr>,
         [''https://books.toscrape.com/''])
   \<and> (0::rat) \<le> 2687 / 50
   \<and> py_float (re_sub (CHR 0xC2 # ''53.74'')) = Inr (2687 / 50)"
proof -
  let ?r = "\<lparr>title = ''Tipping'', price_raw = CHR 0xC2 # ''53.74'',
                        availability = ''In stock'', rating = None,
                        price_clean = 2687 / 50\<rparr>"
  let ?df = "\<lparr>columns = [''title'', ''price_raw'', ''availability'', ''rating'', ''price_clean''],
               rows = [\<lparr>title = ''A Light'', price_raw = CHR 0xA3 # ''51.77'',
                        availability = ''In stock'', rating = Some ''Three'',
                        price_clean = 5177 / 100\<rparr>, ?r]\<rparr>"
  have run: "scrape_books example_net example_soup 1 [] = (Inr ?df, [''https://books.toscrape.com/''])"
    by code_simp
  have row: "?r \<in> set (rows ?df)" by simp
  from table_invariant [OF run row]
  have "0 \<le> price_clean ?r \<and> py_float (re_sub (price_raw ?r)) = Inr (price_clean ?r)"
    by blast
  then show ?thesis using run by simp
qed

theorem table_invariant_counterexample:
  "scrape_books odd_net example_soup 1 []
      = (Inr \<lparr>columns = [''title'', ''price_raw'', ''availability'', ''rating'', ''price_clean''],
               rows = [\<lparr>title = [], price_raw = ''1'', availability = ''In stock'',
                        rating = Some ''Ten'', price_clean = 1\<rparr>]\<rparr>,
         [''https://books.toscrape.com/''])"
  by code_simp

text \<open>
  Claim C8. When the pages before page \<open>k\<close> are fetched and extracted and the fetch of
  page \<open>k\<close> fails, \<open>scrape_books\<close> raises the error of that fetch, after the requests
  for the pages 1 to \<open>k\<close> and no other; the outcome is the error alone, with no table and
  none of the records of the earlier pages. The error is the exception that
  \<open>requests.get\<close> raised or the \<open>HTTPError\<close> of \<open>raise_for_status\<close>, which the spec
  calls a fetch error.
\<close>

theorem fetch_failure_aborts:
  assumes "1 \<le> k" "k \<le> N"
    and "\<forall>j \<in> {1..<k}. \<exists>html pg. fst (get_page net (page_url j) []) = Inr html
            \<and> parse_books BeautifulSoup html = Inr pg"
    and "fst (get_page net (page_url k) []) = Inl e"
  shows "scrape_books net BeautifulSoup N tr = (Inl e, tr @ map page_url [1..k])
     \<and> (net (page_url k) = Inl e
        \<or> (\<exists>resp. net (page_url k) = Inr resp \<and> 400 \<le> status_code resp
              \<and> status_code resp < 600 \<and> e = HTTPError (status_code resp)))"
proof
  have set: "set [1..k - 1] = {1..<k}" by auto
  from assms(3) have "\<forall>j \<in> set [1..k - 1]. \<exists>html. fst (get_page net (page_url j) []) = Inr html"
    unfolding set by blast
  from map_Inr_ex [OF this] obtain htmls where
    h: "map (\<lambda>j. fst (get_page net (page_url j) [])) [1..k - 1] = map Inr htmls" by blast
  have "\<forall>html \<in> set htmls. \<exists>pg. parse_books BeautifulSoup html = Inr pg"
  proof
    fix html assume "html \<in> set htmls"
    then have "Inr html \<in> set (map (\<lambda>j. fst (get_page net (page_url j) [])) [1..k - 1])"
      unfolding h by simp
    then obtain j where "j \<in> {1..<k}" "fst (get_page net (page_url j) []) = Inr html"
      unfolding set [symmetric] by auto
    with assms(3) show "\<exists>pg. parse_books BeautifulSoup html = Inr pg" by fastforce
  qed
  from map_Inr_ex [OF this] obtain pgs where
    g: "map (parse_books BeautifulSoup) htmls = map Inr pgs" by blast
  have "scrape_loop net BeautifulSoup [1..N] [] tr = (Inl e, tr @ map page_url ([1..k - 1] @ [k]))"
    unfolding split_pages [OF assms(1,2)]
    by (rule scrape_loop_fetch_fails [OF h g assms(4)])
  moreover have "[1..k - 1] @ [k] = [1..k]"
    using assms(1) by (simp add: upto_rec2)
  ultimately show "scrape_books net BeautifulSoup N tr = (Inl e, tr @ map page_url [1..k])"
    by (simp add: scrape_books_def)
  from assms(4) show "net (page_url k) = Inl e
        \<or> (\<exists>resp. net (page_url k) = Inr resp \<and> 400 \<le> status_code resp
              \<and> status_code resp < 600 \<and> e = HTTPError (status_code resp))"
    by (auto simp: get_page_def split: sum.splits if_splits)
qed

theorem fetch_failure_aborts_witness:
  "(1::int) \<le> 3 \<and> (3::int) \<le> 4
   \<and> fst (get_page example_net (page_url 1) []) = Inr ''one''
   \<and> parse_books example_soup ''one''
       = Inr [\<lparr>title = ''A Light'', price_raw = CHR 0xA3 # ''51.77'',
                availability = ''In stock'', rating = Some ''Three''\<rparr>,
              \<lparr>title = ''Tipping'', price_raw = CHR 0xC2 # ''53.74'',
                availability = ''In stock'', rating = None\<rparr>]
   \<and> fst (get_page example_net (page_url 2) []) = Inr ''two''
   \<and> parse_books example_soup ''two''
       = Inr [\<lparr>title = ''A Light'', price_raw = CHR 0xA3 # ''51.77'',
                availability = ''In stock'', rating = Some ''Three''\<rparr>]
   \<and> fst (get_page example_net (page_url 3) []) = Inl (HTTPError 404)
   \<and> scrape_books example_net example_soup 4 []
       = (Inl (HTTPError 404),
          [''https://books.toscrape.com/'', ''https://books.toscrape.com/catalogue/page-2.html'',
           ''https://books.toscrape.com/catalogue/page-3.html''])"
proof -
  have k1: "(1::int) \<le> 3" and k2: "(3::int) \<le> 4" by simp_all
  have set: "{1..<3::int} = {1, 2}" by auto
  have p1: "fst (get_page example_net (page_url 1) []) = Inr ''one''" by code_simp
  have p2: "fst (get_page example_net (page_url 2) []) = Inr ''two''" by code_simp
  have g1: "parse_books example_soup ''one''
       = Inr [\<lparr>title = ''A Light'', price_raw = CHR 0xA3 # ''51.77'',
                availability = ''In stock'', rating = Some ''Three''\<rparr>,
              \<lparr>title = ''Tipping'', price_raw = CHR 0xC2 # ''53.74'',
                availability = ''In stock'', rating = None\<rparr>]"
    by code_simp
  have g2: "parse_books example_soup ''two''
       = Inr [\<lparr>title = ''A Light'', price_raw = CHR 0xA3 # ''51.77'',
                availability = ''In stock'', rating = Some ''Three''\<rparr>]"
    by code_simp
  have before: "\<forall>j \<in> {1..<3}. \<exists>html pg. fst (get_page example_net (page_url j) []) = Inr html
            \<and> parse_books example_soup html = Inr pg"
    unfolding set using p1 p2 g1 g2 by simp
  have fail: "fst (get_page example_net (page_url 3) []) = Inl (HTTPError 404)" by code_simp
  have urls: "map page_url [1..3]
      = [''https://books.toscrape.com/'', ''https://books.toscrape.com/catalogue/page-2.html'',
         ''https://books.toscrape.com/catalogue/page-3.html'']"
    by code_simp
  from fetch_failure_aborts [OF k1 k2 before fail, of "[]"]
  have "scrape_books example_net example_soup 4 [] = (Inl (HTTPError 404), map page_url [1..3])"
    by simp
  then have run: "scrape_books example_net example_soup 4 []
       = (Inl (HTTPError 404),
          [''https://books.toscrape.com/'', ''https://books.toscrape.com/catalogue/page-2.html'',
           ''https://books.toscrape.com/catalogue/page-3.html''])"
    by (simp only: urls)
  from k1 k2 p1 g1 p2 g2 fail run show ?thesis
    by (intro conjI) assumption+
qed

text \<open>
  Claim C9. When every page from 1 to \<open>N\<close> is fetched and has no product node,
  \<open>parse_books\<close> returns the empty list for each page without an error, and
  \<open>scrape_books\<close> raises \<open>KeyError\<close> for the column \<open>price_raw\<close>, which a table built from
  no record does not have, instead of returning an empty table.
\<close>

theorem empty_listing_KeyError:
  assumes "\<forall>k \<in> {1..N}. \<exists>html. fst (get_page net (page_url k) []) = Inr html
            \<and> select ''article'' [''product_pod''] (BeautifulSoup html) = []"
  shows "scrape_books net BeautifulSoup N tr
           = (Inl (KeyError ''price_raw''), tr @ map page_url [1..N])
     \<and> (\<forall>k \<in> {1..N}. \<exists>html. fst (get_page net (page_url k) []) = Inr html
            \<and> parse_books BeautifulSoup html = Inr [])"
proof
  have empty: "select ''article'' [''product_pod''] (BeautifulSoup html) = []
      \<Longrightarrow> parse_books BeautifulSoup html = Inr []" for html
    by (simp add: parse_books_def)
  with assms show pages: "\<forall>k \<in> {1..N}. \<exists>html. fst (get_page net (page_url k) []) = Inr html
            \<and> parse_books BeautifulSoup html = Inr []" by blast
  then have "\<forall>k \<in> set [1..N]. \<exists>html. fst (get_page net (page_url k) []) = Inr html"
    by auto
  from map_Inr_ex [OF this] obtain htmls where
    h: "map (\<lambda>k. fst (get_page net (page_url k) [])) [1..N] = map Inr htmls" by blast
  have "\<forall>html \<in> set htmls. parse_books BeautifulSoup html = Inr []"
  proof
    fix html assume "html \<in> set htmls"
    then have "Inr html \<in> set (map (\<lambda>k. fst (get_page net (page_url k) [])) [1..N])"
      unfolding h by simp
    then obtain k where "k \<in> {1..N}" "fst (get_page net (page_url k) []) = Inr html"
      by auto
    with pages show "parse_books BeautifulSoup html = Inr []" by fastforce
  qed
  then have g: "map (parse_books BeautifulSoup) htmls = map Inr (replicate (length htmls) [])"
    by (simp add: map_replicate_const [symmetric] list_eq_iff_nth_eq)
  have "concat (replicate (length htmls) ([] :: book list)) = []"
    by (induction "length htmls") auto
  with scrape_loop_ok [OF h g, of "[]" tr]
  have "scrape_loop net BeautifulSoup [1..N] [] tr = (Inr [], tr @ map page_url [1..N])"
    by simp
  then show "scrape_books net BeautifulSoup N tr
           = (Inl (KeyError ''price_raw''), tr @ map page_url [1..N])"
    by (simp add: scrape_books_def clean_prices_def DataFrame_def getitem_price_raw_def)
qed

theorem empty_listing_KeyError_witness:
  "fst (get_page blank_net (page_url 1) []) = Inr ''blank''
   \<and> fst (get_page blank_net (page_url 2) []) = Inr ''blank''
   \<and> select ''article'' [''product_pod''] (example_soup ''blank'') = []
   \<and> scrape_books blank_net example_soup 2 []
       = (Inl (KeyError ''price_raw''),
          [''https://books.toscrape.com/'', ''https://books.toscrape.com/catalogue/page-2.html''])
   \<and> parse_books example_soup ''blank'' = Inr []"
proof -
  have page: "fst (get_page blank_net url []) = Inr ''blank''" for url
    by (simp add: get_page_def blank_net_def)
  have none: "select ''article'' [''product_pod''] (example_soup ''blank'') = []"
    by code_simp
  have hyp: "\<forall>k \<in> {1..2}. \<exists>html. fst (get_page blank_net (page_url k) []) = Inr html
            \<and> select ''article'' [''product_pod''] (example_soup html) = []"
    using page none by simp
  have urls: "map page_url [1..2]
      = [''https://books.toscrape.com/'', ''https://books.toscrape.com/catalogue/page-2.html'']"
    by code_simp
  note e = empty_listing_KeyError [OF hyp, of "[]"]
  from e have "scrape_books blank_net example_soup 2 []
         = (Inl (KeyError ''price_raw''), map page_url [1..2])"
    by simp
  then have run: "scrape_books blank_net example_soup 2 []
       = (Inl (KeyError ''price_raw''),
          [''https://books.toscrape.com/'', ''https://books.toscrape.com/catalogue/page-2.html''])"
    by (simp only: urls)
  from e have "\<exists>html. fst (get_page blank_net (page_url 1) []) = Inr html
            \<and> parse_books example_soup html = Inr []"
    by simp
  then have parse: "parse_books example_soup ''blank'' = Inr []"
    using page by auto
  from page [of "page_url 1"] page [of "page_url 2"] none run parse show ?thesis
    by (intro conjI) assumption+
qed

text \<open>
  Claim C10. When the rating element of a product node has two or more class tokens,
  the rating of the record is the second token as it stands. It is not compared with
  the five ordinals: there is a product node whose record has a rating that is none of
  \<open>One\<close>, \<open>Two\<close>, \<open>Three\<close>, \<open>Four\<close>, \<open>Five\<close>.
\<close>

theorem rating_verbatim:
  "(\<forall>art rating_tag. select_one ''p'' [''star-rating''] art = Some rating_tag
        \<and> 2 \<le> length (getitem_class rating_tag)
      \<longrightarrow> rating_of art = Some (getitem_class rating_tag ! 1)
        \<and> (\<forall>b. extract_book art = Inr b \<longrightarrow> rating b = Some (getitem_class rating_tag ! 1)))
   \<and> (\<exists>art b r. extract_book art = Inr b \<and> rating b = Some r
         \<and> r \<notin> {''One'', ''Two'', ''Three'', ''Four'', ''Five''})"
proof (intro conjI allI impI)
  fix art rating_tag
  assume a: "select_one ''p'' [''star-rating''] art = Some rating_tag
        \<and> 2 \<le> length (getitem_class rating_tag)"
  then show r: "rating_of art = Some (getitem_class rating_tag ! 1)"
    by (auto simp: rating_of_def)
  fix b assume "extract_book art = Inr b"
  with r show "rating b = Some (getitem_class rating_tag ! 1)"
    by (simp add: extract_book_Inr)
next
  let ?art = "Tag ''article'' [''product_pod''] []
     [Tag ''p'' [''star-rating'', ''Ten''] [] [],
      Tag ''h3'' [] [] [Tag ''a'' [] [(''title'', ''A'')] []],
      Tag ''p'' [''price_color''] [] [NavigableString ''1''],
      Tag ''p'' [''instock'', ''availability''] [] [NavigableString ''In stock'']]"
  have "extract_book ?art = Inr \<lparr>title = ''A'', price_raw = ''1'', availability = ''In stock'',
      rating = Some ''Ten''\<rparr>"
    by code_simp
  then show "\<exists>art b r. extract_book art = Inr b \<and> rating b = Some r
         \<and> r \<notin> {''One'', ''Two'', ''Three'', ''Four'', ''Five''}"
    by (intro exI[of _ ?art] exI[of _ "\<lparr>title = ''A'', price_raw = ''1'', availability = ''In stock'',
      rating = Some ''Ten''\<rparr>"] exI[of _ "''Ten''"]) simp
qed

theorem rating_verbatim_witness:
  "select_one ''p'' [''star-rating''] (product_pod [] ''1'' [''star-rating'', ''Ten''])
     = Some (Tag ''p'' [''star-rating'', ''Ten''] [] [Tag ''i'' [''icon-star''] [] []])
   \<and> 2 \<le> length (getitem_class
         (Tag ''p'' [''star-rating'', ''Ten''] [] [Tag ''i'' [''icon-star''] [] []]))
   \<and> rating_of (product_pod [] ''1'' [''star-rating'', ''Ten'']) = Some ''Ten''"
proof -
  let ?art = "product_pod [] ''1'' [''star-rating'', ''Ten'']"
  let ?tag = "Tag ''p'' [''star-rating'', ''Ten''] [] [Tag ''i'' [''icon-star''] [] []]"
  have sel: "select_one ''p'' [''star-rating''] ?art = Some ?tag" by code_simp
  have len: "2 \<le> length (getitem_class ?tag)" by simp
  from rating_verbatim sel len
  have "rating_of ?art = Some (getitem_class ?tag ! 1)" by blast
  then show ?thesis using sel len by simp
qed

end
